theory Spec2Isabelle
  imports Main "HOL-Library.Word"
begin

section \<open>JavaScript strings\<close>

text \<open>
  A JavaScript string is a sequence of UTF-16 code units. \<open>split\<close>, \<open>join\<close>,
  \<open>trim\<close>, \<open>charCodeAt\<close> and a regular expression without the \<open>u\<close> flag all work on
  code units, so the model is a list of 16-bit words. ASCII literals are written
  \<open>js ''abc''\<close>; the em dash is the single code unit U+2014.
\<close>

type_synonym code_unit = "16 word"
type_synonym jsstring = "code_unit list"

definition js :: "string \<Rightarrow> jsstring" where
  "js s = map of_char s"

abbreviation hyphen :: code_unit where "hyphen \<equiv> 0x2D"
abbreviation em_dash :: code_unit where "em_dash \<equiv> 0x2014"
abbreviation space :: code_unit where "space \<equiv> 0x20"
abbreviation underscore :: code_unit where "underscore \<equiv> 0x5F"
abbreviation dot :: code_unit where "dot \<equiv> 0x2E"

text \<open>
  \<open>s.split(sep)\<close> for a separator of one code unit: the pieces between the occurrences of
  \<open>sep\<close>, so one piece more than there are occurrences; the empty string splits into one
  empty piece. The recursive call never returns the empty array (\<open>split_js_not_Nil\<close>
  below), so \<open>hd\<close> and \<open>tl\<close> are applied to a non-empty list only.
\<close>

fun split_js :: "code_unit \<Rightarrow> jsstring \<Rightarrow> jsstring list" where
  "split_js sep [] = [[]]"
| "split_js sep (c # cs) =
     (let r = split_js sep cs in if c = sep then [] # r else (c # hd r) # tl r)"

text \<open>\<open>pieces.join(sep)\<close>.\<close>

fun join_js :: "jsstring \<Rightarrow> jsstring list \<Rightarrow> jsstring" where
  "join_js sep [] = []"
| "join_js sep [x] = x"
| "join_js sep (x # y # ys) = x @ sep @ join_js sep (y # ys)"

text \<open>
  The code units \<open>String.prototype.trim\<close> strips: ECMAScript's WhiteSpace (TAB, VT, FF,
  SP, NBSP, ZWNBSP and the Unicode space separators) and LineTerminator (LF, CR, LS, PS).
\<close>

definition isWhiteSpace :: "code_unit \<Rightarrow> bool" where
  "isWhiteSpace c \<longleftrightarrow>
     c \<in> {0x09, 0x0A, 0x0B, 0x0C, 0x0D, 0x20, 0xA0, 0x1680, 0x2000, 0x2001, 0x2002, 0x2003,
          0x2004, 0x2005, 0x2006, 0x2007, 0x2008, 0x2009, 0x200A, 0x2028, 0x2029, 0x202F,
          0x205F, 0x3000, 0xFEFF}"

definition trim :: "jsstring \<Rightarrow> jsstring" where
  "trim s = rev (dropWhile isWhiteSpace (rev (dropWhile isWhiteSpace s)))"

section \<open>src/modules/utils.js: file names\<close>

text \<open>
  \<^verbatim>\<open>const createValidFileURI = path =>
    path.split('-').join('_').split(EM DASH).join('_').split(' ').join('_').trim();\<close>
  (the second separator is the em dash U+2014).
\<close>

definition createValidFileURI :: "jsstring \<Rightarrow> jsstring" where
  "createValidFileURI path =
     trim (join_js [underscore] (split_js space
       (join_js [underscore] (split_js em_dash
         (join_js [underscore] (split_js hyphen path))))))"

text \<open>
  \<^verbatim>\<open>const getExtension = (name = '') => name.split('.').pop();\<close>
  The argument is \<open>None\<close> when the caller passes \<open>undefined\<close>, and the default \<open>''\<close>
  applies. \<open>pop\<close> returns the last piece; the array is never empty. A name without a dot is
  its own extension.
\<close>

definition getExtension :: "jsstring option \<Rightarrow> jsstring" where
  "getExtension name = last (split_js dot (case name of None \<Rightarrow> [] | Some n \<Rightarrow> n))"

text \<open>\<^verbatim>\<open>['mp3', 'm4a', 'ovw', 'wav'].includes(getExtension(name))\<close>\<close>

definition isAudioFile :: "jsstring option \<Rightarrow> bool" where
  "isAudioFile name \<longleftrightarrow>
     getExtension name \<in> set [js ''mp3'', js ''m4a'', js ''ovw'', js ''wav'']"

text \<open>\<^verbatim>\<open>getExtension(name) === 'mix'\<close>\<close>

definition isPlaylist :: "jsstring option \<Rightarrow> bool" where
  "isPlaylist name \<longleftrightarrow> getExtension name = js ''mix''"

text \<open>
  A track of a playlist. \<open>track_name\<close> is \<open>None\<close> when the object has no \<open>name\<close>;
  \<open>downloadStatus\<close> is \<open>None\<close> for \<open>null\<close>. Any further field of the object lives in the
  record's extension slot.
\<close>

record track =
  track_id :: jsstring
  track_rev :: jsstring
  track_name :: "jsstring option"
  downloadStatus :: "nat option"

text \<open>
  \<^verbatim>\<open>export const getFileName = track =>
    track ? createValidFileURI(`${track.id}_${track.rev}.${getExtension(track.name)}`) : null;\<close>
  The argument is \<open>None\<close> for a falsy track, the result \<open>None\<close> for \<open>null\<close>.
\<close>

definition getFileName :: "'a track_scheme option \<Rightarrow> jsstring option" where
  "getFileName track =
     (case track of
        None \<Rightarrow> None
      | Some t \<Rightarrow> Some (createValidFileURI
          (track_id t @ [underscore] @ track_rev t @ [dot] @ getExtension (track_name t))))"

text \<open>
  \<^verbatim>\<open>export const getFilePath = track =>
    track ? `${FileSystem.documentDirectory}${getFileName(track)}` : null;\<close>
  The document directory is a parameter. \<open>getFileName\<close> of a truthy track is a string.
\<close>

definition getFilePath :: "jsstring \<Rightarrow> 'a track_scheme option \<Rightarrow> jsstring option" where
  "getFilePath docDir track =
     (case track of
        None \<Rightarrow> None
      | Some t \<Rightarrow> (case getFileName (Some t) of None \<Rightarrow> Some (docDir @ js ''null'')
                                              | Some n \<Rightarrow> Some (docDir @ n)))"

section \<open>The file system and the console\<close>

text \<open>
  The Expo file system is consumed as a capability. The model holds the document
  directory: its URI, the files in it (name and content, in listing order), whether
  listing it fails, and the paths whose deletion fails. The console is the list of
  errors written by \<open>console.error\<close>. A promise that settles is a value of
  \<open>fs_error + 'a\<close>: \<open>Inl\<close> when it rejects.
\<close>

datatype fs_error = ReadDirectoryFailed | DeleteFailed jsstring | GetInfoFailed

record world =
  documentDirectory :: jsstring
  dir_files :: "(jsstring \<times> jsstring) list"
  read_fails :: bool
  delete_fails :: "jsstring list"
  console :: "fs_error list"

definition file_exists :: "world \<Rightarrow> jsstring \<Rightarrow> bool" where
  "file_exists w p \<longleftrightarrow> p \<in> set (map (\<lambda>(n, c). documentDirectory w @ n) (dir_files w))"

text \<open>\<open>FileSystem.readDirectoryAsync(path)\<close>: the names of the entries of the directory.\<close>

definition readDirectoryAsync :: "world \<Rightarrow> jsstring \<Rightarrow> fs_error + jsstring list" where
  "readDirectoryAsync w p =
     (if p = documentDirectory w \<and> \<not> read_fails w then Inr (map fst (dir_files w))
      else Inl ReadDirectoryFailed)"

text \<open>
  \<open>FileSystem.deleteAsync(path)\<close> with the default options: the promise rejects when
  nothing is at the path or the deletion fails, and the file stays; otherwise the file is
  removed.
\<close>

definition deleteAsync :: "world \<Rightarrow> jsstring \<Rightarrow> (fs_error + unit) \<times> world" where
  "deleteAsync w p =
     (if p \<in> set (delete_fails w) \<or> \<not> file_exists w p then (Inl (DeleteFailed p), w)
      else (Inr (),
            w\<lparr>dir_files := filter (\<lambda>(n, c). documentDirectory w @ n \<noteq> p) (dir_files w)\<rparr>))"

text \<open>
  \<open>FileSystem.getInfoAsync(path)\<close>: the \<open>exists\<close> field of the result. A path that is
  not a string (\<open>None\<close>) rejects.
\<close>

definition getInfoAsync :: "world \<Rightarrow> jsstring option \<Rightarrow> fs_error + bool" where
  "getInfoAsync w path =
     (case path of None \<Rightarrow> Inl GetInfoFailed | Some p \<Rightarrow> Inr (file_exists w p))"

text \<open>
  \<^verbatim>\<open>export const handleError = (error, dispatch, type) => {
    console.error(error);
    dispatch({ payload: { message: error.message }, type: type });
  };\<close>
  The only place of the module that writes to the console. The dispatched action is
  returned.
\<close>

definition handleError :: "fs_error \<Rightarrow> jsstring \<Rightarrow> world \<Rightarrow> (fs_error \<times> jsstring) \<times> world" where
  "handleError error type w = ((error, type), w\<lparr>console := console w @ [error]\<rparr>)"

section \<open>src/modules/utils.js: cleanFiles\<close>

record playlist =
  meta_name :: jsstring
  data_title :: jsstring
  data_tracks :: "track list"

text \<open>
  The application state as the module reads it: \<open>state.playlists.data\<close> and
  \<open>state.auth.user.params.access_token\<close>.
\<close>

record app_state =
  playlists_data :: "playlist list"
  access_token :: jsstring

text \<open>
  \<^verbatim>\<open>const activeFiles = playlists.reduce(
    (all, p) => [...all, createValidFileURI(p.meta.name), ...p.data.tracks.map(getFileName)],
    []);\<close>
\<close>

definition activeFiles :: "playlist list \<Rightarrow> jsstring option list" where
  "activeFiles playlists =
     foldl (\<lambda>all p. all @ [Some (createValidFileURI (meta_name p))]
                        @ map (\<lambda>t. getFileName (Some t)) (data_tracks p))
       [] playlists"

text \<open>
  \<^verbatim>\<open>const inactiveFiles = files.filter(
    f => (isPlaylist(f) || isAudioFile(f)) && !activeFiles.includes(f));\<close>
\<close>

definition inactiveFiles :: "jsstring list \<Rightarrow> jsstring option list \<Rightarrow> jsstring list" where
  "inactiveFiles files active =
     filter (\<lambda>f. (isPlaylist (Some f) \<or> isAudioFile (Some f)) \<and> Some f \<notin> set active) files"

text \<open>
  \<^verbatim>\<open>inactiveFiles.map(f => FileSystem.deleteAsync(docPath + f));\<close>
  One call per path, in order. Every call is made whatever the earlier ones do, and the
  promises are neither awaited nor given a rejection handler. The model keeps each path
  with the way its promise settles.
\<close>

fun deleteEach :: "world \<Rightarrow> jsstring list \<Rightarrow> (jsstring \<times> (fs_error + unit)) list \<times> world" where
  "deleteEach w [] = ([], w)"
| "deleteEach w (p # ps) =
     (let (r, w') = deleteAsync w p;
          (rs, w'') = deleteEach w' ps
      in ((p, r) # rs, w''))"

text \<open>
  \<^verbatim>\<open>export const cleanFiles = async getState => {
    const docPath = FileSystem.documentDirectory;
    const files = await FileSystem.readDirectoryAsync(docPath);
    const state = getState();
    const playlists = state.playlists.data;
    ...
  };\<close>
  The result holds how the promise of \<open>cleanFiles\<close> itself settles, the delete calls made
  and the world afterwards. A failed listing rejects \<open>cleanFiles\<close> before any call.
\<close>

record clean_result =
  settled :: "fs_error + unit"
  deletions :: "(jsstring \<times> (fs_error + unit)) list"
  world_after :: world

definition cleanFiles :: "app_state \<Rightarrow> world \<Rightarrow> clean_result" where
  "cleanFiles state w =
     (let docPath = documentDirectory w in
      case readDirectoryAsync w docPath of
        Inl e \<Rightarrow> \<lparr>settled = Inl e, deletions = [], world_after = w\<rparr>
      | Inr files \<Rightarrow>
          (let playlists = playlists_data state;
               active = activeFiles playlists;
               inactive = inactiveFiles files active;
               (rs, w') = deleteEach w (map (\<lambda>f. docPath @ f) inactive)
           in \<lparr>settled = Inr (), deletions = rs, world_after = w'\<rparr>))"

section \<open>src/modules/utils.js: isDownloaded\<close>

text \<open>
  \<^verbatim>\<open>export const isDownloaded = async track => {
    const info = await FileSystem.getInfoAsync(getFilePath(track));
    return { ...track, downloadStatus: info.exists ? 100 : null };
  };\<close>
\<close>

definition isDownloaded :: "world \<Rightarrow> 'a track_scheme \<Rightarrow> fs_error + 'a track_scheme" where
  "isDownloaded w track =
     (case getInfoAsync w (getFilePath (documentDirectory w) (Some track)) of
        Inl e \<Rightarrow> Inl e
      | Inr ex \<Rightarrow> Inr (track\<lparr>downloadStatus := (if ex then Some 100 else None)\<rparr>))"

section \<open>src/modules/utils.js: remote entries\<close>

text \<open>
  A Dropbox entry: its \<open>.tag\<close>, its \<open>name\<close> and \<open>path_display\<close> (absent: \<open>None\<close>) and the
  optional \<open>sharing_info\<close> object with its optional \<open>modified_by\<close>.
\<close>

record sharing_info =
  modified_by :: "jsstring option"

record entry =
  tag :: jsstring
  entry_name :: "jsstring option"
  path_display :: "jsstring option"
  entry_sharing_info :: "sharing_info option"

text \<open>
  \<^verbatim>\<open>export const getModifiedBy = entry => get(entry, 'sharing_info.modified_by');\<close>
  \<open>get\<close> of dot-prop returns \<open>undefined\<close> when a step of the path is missing.
\<close>

definition getModifiedBy :: "'a entry_scheme \<Rightarrow> jsstring option" where
  "getModifiedBy e =
     (case entry_sharing_info e of None \<Rightarrow> None | Some si \<Rightarrow> modified_by si)"

text \<open>\<open>[...new Set(xs)]\<close>: the values in the order of their first occurrence.\<close>

definition set_js :: "'a list \<Rightarrow> 'a list" where
  "set_js xs = foldl (\<lambda>seen x. if x \<in> set seen then seen else seen @ [x]) [] xs"

text \<open>\<open>Boolean(v)\<close> for a string or \<open>undefined\<close>: false for \<open>undefined\<close> and for \<open>''\<close>.\<close>

definition truthy :: "jsstring option \<Rightarrow> bool" where
  "truthy v \<longleftrightarrow> (case v of None \<Rightarrow> False | Some s \<Rightarrow> s \<noteq> [])"

text \<open>
  \<^verbatim>\<open>export const getModifiedUsersFromEntries = entries =>
    [...new Set(entries.map(getModifiedBy))].filter(Boolean);\<close>
\<close>

definition getModifiedUsersFromEntries :: "'a entry_scheme list \<Rightarrow> jsstring option list" where
  "getModifiedUsersFromEntries entries = filter truthy (set_js (map getModifiedBy entries))"

text \<open>
  \<^verbatim>\<open>export const transformFile = file => ({
    ...file,
    isAudioFile: isAudioFile(file.name),
    isFolder: file['.tag'] === 'folder',
    isPlaylist: isPlaylist(file.name),
    path: file.path_display,
    type: file['.tag'],
    user: get(file, 'sharing_info.modified_by')
  });\<close>
\<close>

record transformed_file = entry +
  file_isAudioFile :: bool
  file_isFolder :: bool
  file_isPlaylist :: bool
  file_path :: "jsstring option"
  file_type :: jsstring
  file_user :: "jsstring option"


section \<open>Specification-side definitions and examples\<close>

text \<open>
  The active set in the words of the specification: the normalised name of every tracked
  playlist plus the canonical file name of every one of its tracks.
\<close>

definition active_set :: "playlist list \<Rightarrow> jsstring set" where
  "active_set playlists =
     (\<Union>p \<in> set playlists.
        insert (createValidFileURI (meta_name p))
          {n. \<exists>t \<in> set (data_tracks p). getFileName (Some t) = Some n})"

text \<open>The example of the specification: three local files, one playlist with one track.\<close>

definition example_track :: track where
  "example_track =
     \<lparr>track_id = js ''abc'', track_rev = js ''3'', track_name = Some (js ''My Song.mp3''),
      downloadStatus = None\<rparr>"

definition example_state :: app_state where
  "example_state =
     \<lparr>playlists_data =
        [\<lparr>meta_name = js ''p1.mix'', data_title = js ''Demo'', data_tracks = [example_track]\<rparr>],
      access_token = js ''token''\<rparr>"

definition empty_state :: app_state where
  "empty_state = \<lparr>playlists_data = [], access_token = js ''token''\<rparr>"

definition example_world :: world where
  "example_world =
     \<lparr>documentDirectory = js ''file:///docs/'',
      dir_files = [(js ''p1.mix'', js ''a''), (js ''abc_3.mp3'', js ''b''),
                   (js ''stray.txt'', js ''c'')],
      read_fails = False, delete_fails = [], console = []\<rparr>"

definition normalize_unit :: "code_unit \<Rightarrow> code_unit" where
  "normalize_unit c = (if c = hyphen \<or> c = em_dash \<or> c = space then underscore else c)"

text \<open>The same directory when the deletion of the audio file fails.\<close>

definition locked_world :: world where
  "locked_world = example_world\<lparr>delete_fails := [js ''file:///docs/abc_3.mp3'']\<rparr>"

text \<open>The example directory with other bytes in the audio file.\<close>

definition stale_world :: world where
  "stale_world = example_world\<lparr>dir_files :=
     [(js ''p1.mix'', js ''a''), (js ''abc_3.mp3'', js ''other bytes''),
      (js ''stray.txt'', js ''c'')]\<rparr>"

text \<open>Example entries: with and without \<open>sharing_info\<close>, with an empty and a repeated user.\<close>

definition example_entry :: entry where
  "example_entry =
     \<lparr>tag = js ''file'', entry_name = Some (js ''a.mp3''), path_display = Some (js ''/a.mp3''),
      entry_sharing_info = Some \<lparr>modified_by = Some (js ''u1'')\<rparr>\<rparr>"

definition example_entry' :: entry where
  "example_entry' =
     \<lparr>tag = js ''file'', entry_name = Some (js ''b.c.mp3''), path_display = None,
      entry_sharing_info = None\<rparr>"

definition example_entries :: "entry list" where
  "example_entries =
     [example_entry', example_entry, example_entry,
      example_entry\<lparr>entry_sharing_info := Some \<lparr>modified_by = Some []\<rparr>\<rparr>,
      example_entry\<lparr>entry_sharing_info := Some \<lparr>modified_by = Some (js ''u2'')\<rparr>\<rparr>,
      example_entry\<lparr>entry_sharing_info := Some \<lparr>modified_by = None\<rparr>\<rparr>]"

text \<open>
  The parts of a canonical file name: the id with hyphen, em dash and space replaced by
  underscore and leading whitespace dropped; the revision with the same replacement; the
  extension with the same replacement and trailing whitespace dropped.
\<close>

definition canonical_id :: "jsstring \<Rightarrow> jsstring" where
  "canonical_id i = dropWhile isWhiteSpace (map normalize_unit i)"

definition canonical_rev :: "jsstring \<Rightarrow> jsstring" where
  "canonical_rev r = map normalize_unit r"

definition canonical_ext :: "jsstring \<Rightarrow> jsstring" where
  "canonical_ext x = rev (dropWhile isWhiteSpace (rev (map normalize_unit x)))"

text \<open>Tracks whose ids differ only in a hyphen against an underscore, and a third track.\<close>

definition hyphen_track :: track where
  "hyphen_track =
     \<lparr>track_id = js ''a-b'', track_rev = js ''3'', track_name = Some (js ''x.mp3''),
      downloadStatus = None\<rparr>"

definition underscore_track :: track where
  "underscore_track =
     \<lparr>track_id = js ''a_b'', track_rev = js ''3'', track_name = Some (js ''x.mp3''),
      downloadStatus = None\<rparr>"

definition other_track :: track where
  "other_track =
     \<lparr>track_id = js ''abd'', track_rev = js ''3'', track_name = Some (js ''My Song.mp3''),
      downloadStatus = Some 100\<rparr>"

text \<open>The track with the hyphen in its id, at another revision.\<close>

definition hyphen_track_rev4 :: track where
  "hyphen_track_rev4 =
     \<lparr>track_id = js ''a-b'', track_rev = js ''4'', track_name = Some (js ''x.mp3''),
      downloadStatus = None\<rparr>"







section \<open>src/modules/utils.js: createDownloader\<close>

abbreviation backslash :: code_unit where "backslash \<equiv> 0x5C"
abbreviation dquote :: code_unit where "dquote \<equiv> 0x22"
abbreviation letter_u :: code_unit where "letter_u \<equiv> 0x75"

text \<open>\<open>n.toString(16)\<close> for a non-negative integer: lower-case digits, no padding.\<close>

definition hexDigit :: "nat \<Rightarrow> code_unit" where
  "hexDigit d = js ''0123456789abcdef'' ! d"

fun toString16 :: "nat \<Rightarrow> jsstring" where
  "toString16 n =
     (if n < 16 then [hexDigit n] else toString16 (n div 16) @ [hexDigit (n mod 16)])"

declare toString16.simps [simp del]

text \<open>\<open>s.slice(-k)\<close>: the last \<open>k\<close> code units of \<open>s\<close>, all of \<open>s\<close> when it is shorter.\<close>

definition slice_last :: "nat \<Rightarrow> jsstring \<Rightarrow> jsstring" where
  "slice_last k s = drop (length s - k) s"

text \<open>
  \<open>JSON.stringify\<close> of a string (ECMAScript QuoteJSONString): the two-character escapes
  for backspace, tab, line feed, form feed, carriage return, the double quote and the
  backslash; \<open>\uXXXX\<close> with four lower-case digits for the other code units below U+0020
  and for a surrogate that is not part of a pair; every other code unit as it is.
\<close>

definition isHighSurrogate :: "code_unit \<Rightarrow> bool" where
  "isHighSurrogate c \<longleftrightarrow> 0xD800 \<le> c \<and> c \<le> 0xDBFF"

definition isLowSurrogate :: "code_unit \<Rightarrow> bool" where
  "isLowSurrogate c \<longleftrightarrow> 0xDC00 \<le> c \<and> c \<le> 0xDFFF"

definition unicodeEscape :: "code_unit \<Rightarrow> jsstring" where
  "unicodeEscape c =
     (let hex = toString16 (unat c)
      in [backslash, letter_u] @ replicate (4 - length hex) 0x30 @ hex)"

definition quoteJSONUnit :: "code_unit \<Rightarrow> jsstring" where
  "quoteJSONUnit c =
     (if c = 0x08 then [backslash, 0x62]
      else if c = 0x09 then [backslash, 0x74]
      else if c = 0x0A then [backslash, 0x6E]
      else if c = 0x0C then [backslash, 0x66]
      else if c = 0x0D then [backslash, 0x72]
      else if c = dquote then [backslash, dquote]
      else if c = backslash then [backslash, backslash]
      else if c < 0x20 \<or> isHighSurrogate c \<or> isLowSurrogate c then unicodeEscape c
      else [c])"

fun quoteJSONUnits :: "jsstring \<Rightarrow> jsstring" where
  "quoteJSONUnits [] = []"
| "quoteJSONUnits [c] = quoteJSONUnit c"
| "quoteJSONUnits (c # d # ds) =
     (if isHighSurrogate c \<and> isLowSurrogate d then c # d # quoteJSONUnits ds
      else quoteJSONUnit c @ quoteJSONUnits (d # ds))"

definition quoteJSONString :: "jsstring \<Rightarrow> jsstring" where
  "quoteJSONString s = [dquote] @ quoteJSONUnits s @ [dquote]"

text \<open>The header object \<open>{ path: remote }\<close> and its \<open>JSON.stringify\<close>.\<close>

record header =
  header_path :: jsstring

definition JSON_stringify :: "header \<Rightarrow> jsstring" where
  "JSON_stringify h =
     [0x7B] @ quoteJSONString (js ''path'') @ [0x3A] @ quoteJSONString (header_path h) @ [0x7D]"

text \<open>
  \<^verbatim>\<open>const cleanHeader = header =>
    JSON.stringify(header).replace(
      /[\u007f-\uffff]/g,
      char => '\\u' + ('000' + char.charCodeAt(0).toString(16)).slice(-4));\<close>
  The global replace rewrites every code unit of the class on its own.
\<close>

definition cleanHeader :: "header \<Rightarrow> jsstring" where
  "cleanHeader h =
     concat (map (\<lambda>char. if 0x7F \<le> char \<and> char \<le> 0xFFFF
                            then [backslash, letter_u]
                                 @ slice_last 4 (js ''000'' @ toString16 (unat char))
                            else [char])
               (JSON_stringify h))"

text \<open>\<^verbatim>\<open>export const getAccessToken = state => state.auth.user.params.access_token;\<close>\<close>

definition getAccessToken :: "app_state \<Rightarrow> jsstring" where
  "getAccessToken state = access_token state"

definition dropBoxDownloadUrl :: jsstring where
  "dropBoxDownloadUrl = js ''https://content.dropboxapi.com/2/files/download''"

text \<open>
  \<^verbatim>\<open>export const createDownloader = (local, remote, state, progress) => {
    const localPath = FileSystem.documentDirectory + createValidFileURI(local);
    const apiArg = cleanHeader({ path: remote });
    return FileSystem.createDownloadResumable(dropBoxDownloadUrl, localPath,
      { headers: { Authorization: 'Bearer ' + getAccessToken(state),
                   'Dropbox-API-Arg': apiArg } },
      progress);
  };\<close>
  The resumable download is the record of what it was created with.
\<close>

record 'cb download_resumable =
  dr_url :: jsstring
  dr_fileUri :: jsstring
  dr_Authorization :: jsstring
  dr_Dropbox_API_Arg :: jsstring
  dr_callback :: 'cb

definition createDownloader ::
  "jsstring \<Rightarrow> jsstring \<Rightarrow> jsstring \<Rightarrow> app_state \<Rightarrow> 'cb \<Rightarrow> 'cb download_resumable" where
  "createDownloader docDir local remote state progress =
     (let localPath = docDir @ createValidFileURI local;
          apiArg = cleanHeader \<lparr>header_path = remote\<rparr>
      in \<lparr>dr_url = dropBoxDownloadUrl, dr_fileUri = localPath,
          dr_Authorization = js ''Bearer '' @ getAccessToken state,
          dr_Dropbox_API_Arg = apiArg, dr_callback = progress\<rparr>)"

text \<open>
  The header value in the words of the specification: the JSON encoding of
  \<open>{path: remote}\<close> in which every code unit above U+007F is replaced by \<open>\u\<close> and four
  hexadecimal digits.
\<close>

definition hex4 :: "nat \<Rightarrow> jsstring" where
  "hex4 n = [hexDigit (n div 4096 mod 16), hexDigit (n div 256 mod 16),
             hexDigit (n div 16 mod 16), hexDigit (n mod 16)]"

definition escape_above :: "code_unit \<Rightarrow> jsstring \<Rightarrow> jsstring" where
  "escape_above bound s =
     concat (map (\<lambda>c. if bound < c then [backslash, letter_u] @ hex4 (unat c) else [c]) s)"

definition header_above_7F :: "jsstring \<Rightarrow> jsstring" where
  "header_above_7F remote = escape_above 0x7F (JSON_stringify \<lparr>header_path = remote\<rparr>)"

section \<open>Download sessions\<close>

text \<open>
  Modelled from the spec: the download manager, which is not part of
  \<open>src/modules/utils.js\<close> (the module only builds a downloader with \<open>createDownloader\<close>).
  A download session owns what its downloader was created with and is tagged with a
  session identity, which its progress callback carries. Starting a session for a track
  cancels the sessions in flight for that track first; a progress update is applied only
  when its session is still in flight, and sets the status of the session's track to the
  percentage, at most 99; completion sets it to 100 and ends the session.
\<close>

record session =
  session_id :: nat
  session_track :: jsstring
  session_downloader :: "nat download_resumable"

record manager =
  next_session :: nat
  in_flight :: "session list"
  cancelled :: "nat list"
  status_of :: "jsstring \<Rightarrow> nat option"

text \<open>
  Modelled from the spec: the events the manager reacts to. \<open>Start t local remote\<close>
  starts a download for the track with id \<open>t\<close>; \<open>Progress sid pct\<close> is a progress update
  of the session \<open>sid\<close> with the percentage written; \<open>Complete sid\<close> is its completion.
\<close>

datatype download_event =
  Start jsstring jsstring jsstring
  | Progress nat nat
  | Complete nat

text \<open>Modelled from the spec: the manager before any download.\<close>

definition initial_manager :: manager where
  "initial_manager =
     \<lparr>next_session = 0, in_flight = [], cancelled = [], status_of = (\<lambda>t. None)\<rparr>"

text \<open>Modelled from the spec: the session identity check, among the sessions in flight.\<close>

definition find_session :: "manager \<Rightarrow> nat \<Rightarrow> session option" where
  "find_session m sid = find (\<lambda>s. session_id s = sid) (in_flight m)"

text \<open>
  Modelled from the spec: one event. A start cancels the prior sessions of the track and
  puts a session with a fresh identity in flight, its downloader built by
  \<open>createDownloader\<close>; progress and completion of a session that is not in flight are
  discarded.
\<close>

fun manager_step :: "jsstring \<Rightarrow> app_state \<Rightarrow> manager \<Rightarrow> download_event \<Rightarrow> manager" where
  "manager_step docDir st m (Start t local remote) =
     (let prior = filter (\<lambda>s. session_track s = t) (in_flight m);
          sid = next_session m;
          new = \<lparr>session_id = sid, session_track = t,
                 session_downloader = createDownloader docDir local remote st sid\<rparr>
      in m\<lparr>next_session := sid + 1,
            in_flight := new # filter (\<lambda>s. session_track s \<noteq> t) (in_flight m),
            cancelled := cancelled m @ map session_id prior\<rparr>)"
| "manager_step docDir st m (Progress sid pct) =
     (case find_session m sid of
        None \<Rightarrow> m
      | Some s \<Rightarrow> m\<lparr>status_of := (status_of m)(session_track s := Some (min 99 pct))\<rparr>)"
| "manager_step docDir st m (Complete sid) =
     (case find_session m sid of
        None \<Rightarrow> m
      | Some s \<Rightarrow> m\<lparr>status_of := (status_of m)(session_track s := Some 100),
                    in_flight := filter (\<lambda>x. session_id x \<noteq> sid) (in_flight m)\<rparr>)"

text \<open>Modelled from the spec: the events of a run, in the order they arrive.\<close>

definition manager_run ::
  "jsstring \<Rightarrow> app_state \<Rightarrow> manager \<Rightarrow> download_event list \<Rightarrow> manager" where
  "manager_run docDir st m es = foldl (manager_step docDir st) m es"

text \<open>
  The invariant of the manager: one session in flight per track at most, session
  identities unique and below the next one to be given out.
\<close>

definition manager_ok :: "manager \<Rightarrow> bool" where
  "manager_ok m \<longleftrightarrow>
     distinct (map session_track (in_flight m))
     \<and> distinct (map session_id (in_flight m))
     \<and> (\<forall>s \<in> set (in_flight m). session_id s < next_session m)"

text \<open>A session that is neither in flight nor still to be created never comes back.\<close>

definition retired :: "manager \<Rightarrow> nat \<Rightarrow> bool" where
  "retired m sid \<longleftrightarrow> sid < next_session m \<and> sid \<notin> session_id ` set (in_flight m)"

text \<open>A first session for the track \<open>abc\<close>, and the manager after the track is started again.\<close>

definition first_session :: session where
  "first_session =
     \<lparr>session_id = 0, session_track = js ''abc'',
      session_downloader =
        createDownloader (js ''file:///docs/'') (js ''abc_3.mp3'') (js ''/abc.mp3'')
          example_state 0\<rparr>"

definition restarted :: manager where
  "restarted =
     manager_run (js ''file:///docs/'') example_state
       (manager_step (js ''file:///docs/'') example_state
          (manager_run (js ''file:///docs/'') example_state initial_manager
             [Start (js ''abc'') (js ''abc_3.mp3'') (js ''/abc.mp3'')])
          (Start (session_track first_session) (js ''abc_3.mp3'') (js ''/abc.mp3'')))
       [Progress 1 40]"

section \<open>Lemmas on strings\<close>

lemma split_js_not_Nil: "split_js sep s \<noteq> []"
  by (induction s) (auto simp: Let_def)

lemma join_split_js:
  "join_js [u] (split_js h s) = map (\<lambda>c. if c = h then u else c) s"
proof (induction s)
  case Nil
  then show ?case by simp
next
  case (Cons c cs)
  obtain p ps where r: "split_js h cs = p # ps"
    using split_js_not_Nil [of h cs] by (cases "split_js h cs") auto
  show ?case
  proof (cases "c = h")
    case True
    with Cons r show ?thesis by simp
  next
    case False
    with Cons r show ?thesis by (cases ps) auto
  qed
qed

lemma last_split_js_no_sep: "sep \<notin> set (last (split_js sep s))"
proof (induction s)
  case Nil
  then show ?case by simp
next
  case (Cons c cs)
  obtain p ps where r: "split_js sep cs = p # ps"
    using split_js_not_Nil [of sep cs] by (cases "split_js sep cs") auto
  with Cons show ?case by (cases ps) (auto simp: Let_def)
qed

lemma createValidFileURI_map:
  "createValidFileURI s = trim (map normalize_unit s)"
proof -
  have "map (\<lambda>c. if c = space then underscore else c)
          (map (\<lambda>c. if c = em_dash then underscore else c)
            (map (\<lambda>c. if c = hyphen then underscore else c) s)) = map normalize_unit s"
    by (simp add: normalize_unit_def)
  then show ?thesis
    by (simp only: createValidFileURI_def join_split_js)
qed

lemma normalize_unit_fixed:
  "c \<noteq> hyphen \<Longrightarrow> c \<noteq> em_dash \<Longrightarrow> c \<noteq> space \<Longrightarrow> normalize_unit c = c"
  by (simp add: normalize_unit_def)

lemma normalize_unit_range:
  "normalize_unit c \<noteq> hyphen \<and> normalize_unit c \<noteq> em_dash \<and> normalize_unit c \<noteq> space"
  by (simp add: normalize_unit_def)

lemma set_trim_subset: "set (trim s) \<subseteq> set s"
proof -
  have "set (trim s) \<subseteq> set (dropWhile isWhiteSpace s)"
    unfolding trim_def using set_dropWhileD by fastforce
  also have "\<dots> \<subseteq> set s"
    using set_dropWhileD by fastforce
  finally show ?thesis .
qed

lemma dropWhile_trim: "dropWhile isWhiteSpace (trim s) = trim s"
proof (cases "dropWhile isWhiteSpace s")
  case Nil
  have "trim s = []"
    unfolding trim_def Nil by simp
  then show ?thesis by simp
next
  case (Cons x xs)
  then have nx: "\<not> isWhiteSpace x"
    using hd_dropWhile [of isWhiteSpace s] by auto
  have "trim s = x # rev (dropWhile isWhiteSpace (rev xs))"
    using nx by (simp add: trim_def Cons dropWhile_append3)
  with nx show ?thesis by simp
qed

lemma trim_idem: "trim (trim s) = trim s"
proof -
  have "trim (trim s) = rev (dropWhile isWhiteSpace (rev (trim s)))"
    by (simp add: trim_def [of "trim s"] dropWhile_trim)
  also have "\<dots> = trim s"
    by (simp add: trim_def)
  finally show ?thesis .
qed

section \<open>Normalisation of file names\<close>

text \<open>
  C7. For every string \<open>s\<close>, \<open>createValidFileURI\<close> replaces every hyphen, em dash and
  space of \<open>s\<close> by an underscore and trims leading and trailing whitespace from the
  result; and it is idempotent: normalising an already normalised name changes nothing.
\<close>

theorem createValidFileURI_normalizes_idempotent:
  "createValidFileURI s =
     trim (map (\<lambda>c. if c = hyphen \<or> c = em_dash \<or> c = space then underscore else c) s)
   \<and> createValidFileURI (createValidFileURI s) = createValidFileURI s"
proof
  show "createValidFileURI s =
     trim (map (\<lambda>c. if c = hyphen \<or> c = em_dash \<or> c = space then underscore else c) s)"
    using createValidFileURI_map [of s] by (simp add: normalize_unit_def [abs_def])
next
  let ?t = "trim (map normalize_unit s)"
  have "\<forall>c \<in> set ?t. normalize_unit c = c"
  proof
    fix c assume "c \<in> set ?t"
    then have "c \<in> set (map normalize_unit s)"
      using set_trim_subset by blast
    then obtain d where "c = normalize_unit d" by auto
    then show "normalize_unit c = c"
      using normalize_unit_range [of d] by (simp add: normalize_unit_fixed)
  qed
  then have "map normalize_unit ?t = ?t"
    by (simp add: map_idI)
  then show "createValidFileURI (createValidFileURI s) = createValidFileURI s"
    by (simp add: createValidFileURI_map trim_idem)
qed

section \<open>Purging inactive files\<close>

lemma deleteAsync_frame:
  "documentDirectory (snd (deleteAsync w p)) = documentDirectory w"
  "delete_fails (snd (deleteAsync w p)) = delete_fails w"
  "console (snd (deleteAsync w p)) = console w"
  by (simp_all add: deleteAsync_def)

lemma deleteAsync_dir_files:
  "dir_files (snd (deleteAsync w p)) =
     filter (\<lambda>(n, c). documentDirectory w @ n \<noteq> p \<or> p \<in> set (delete_fails w)) (dir_files w)"
proof (cases "p \<in> set (delete_fails w) \<or> \<not> file_exists w p")
  case True
  then have "\<forall>e \<in> set (dir_files w).
      (case e of (n, c) \<Rightarrow> documentDirectory w @ n \<noteq> p \<or> p \<in> set (delete_fails w))"
    by (auto simp: file_exists_def)
  then have "filter (\<lambda>(n, c). documentDirectory w @ n \<noteq> p \<or> p \<in> set (delete_fails w))
      (dir_files w) = dir_files w"
    by (simp only: filter_True)
  with True show ?thesis by (simp add: deleteAsync_def)
next
  case False
  then have "(\<lambda>(n, c). documentDirectory w @ n \<noteq> p \<or> p \<in> set (delete_fails w))
      = (\<lambda>(n, c). documentDirectory w @ n \<noteq> p)"
    by auto
  with False show ?thesis by (simp add: deleteAsync_def)
qed

lemma deleteEach_frame:
  "documentDirectory (snd (deleteEach w ps)) = documentDirectory w
   \<and> delete_fails (snd (deleteEach w ps)) = delete_fails w
   \<and> console (snd (deleteEach w ps)) = console w"
proof (induction ps arbitrary: w)
  case Nil
  then show ?case by simp
next
  case (Cons p ps)
  show ?case
    using Cons [of "snd (deleteAsync w p)"] deleteAsync_frame [of w p]
    by (simp add: split_beta)
qed

lemma deleteEach_calls: "map fst (fst (deleteEach w ps)) = ps"
  by (induction ps arbitrary: w) (simp_all add: split_beta)

lemma deleteEach_dir_files:
  "dir_files (snd (deleteEach w ps)) =
     filter (\<lambda>(n, c). documentDirectory w @ n \<notin> set ps
                        \<or> documentDirectory w @ n \<in> set (delete_fails w)) (dir_files w)"
proof (induction ps arbitrary: w)
  case Nil
  then show ?case by simp
next
  case (Cons p ps)
  let ?w = "snd (deleteAsync w p)"
  have "dir_files (snd (deleteEach w (p # ps))) = dir_files (snd (deleteEach ?w ps))"
    by (simp add: split_beta)
  also have "\<dots> = filter (\<lambda>(n, c). documentDirectory w @ n \<notin> set ps
                        \<or> documentDirectory w @ n \<in> set (delete_fails w)) (dir_files ?w)"
    using Cons [of ?w] by (simp add: deleteAsync_frame)
  also have "\<dots> = filter (\<lambda>(n, c). documentDirectory w @ n \<notin> set (p # ps)
                        \<or> documentDirectory w @ n \<in> set (delete_fails w)) (dir_files w)"
    unfolding deleteAsync_dir_files filter_filter
    by (rule filter_cong) auto
  finally show ?case .
qed

lemma deleteEach_outcome:
  "(p, r) \<in> set (fst (deleteEach w ps)) \<Longrightarrow>
     r = Inr () \<or> r = Inl (DeleteFailed p)"
proof (induction ps arbitrary: w)
  case Nil
  then show ?case by simp
next
  case (Cons q qs)
  then show ?case
    by (auto simp: split_beta deleteAsync_def split: if_splits)
qed

lemma set_foldl_activeFiles:
  "set (foldl (\<lambda>all p. all @ [Some (createValidFileURI (meta_name p))]
                        @ map (\<lambda>t. getFileName (Some t)) (data_tracks p)) acc pls)
   = set acc \<union> (\<Union>p \<in> set pls. insert (Some (createValidFileURI (meta_name p)))
                    ((\<lambda>t. getFileName (Some t)) ` set (data_tracks p)))"
  by (induction pls arbitrary: acc) auto

lemma activeFiles_active_set:
  "Some f \<in> set (activeFiles pls) \<longleftrightarrow> f \<in> active_set pls"
  unfolding activeFiles_def set_foldl_activeFiles active_set_def
  by (auto simp: image_iff) (metis, force)

lemma cleanFiles_readable:
  assumes "readDirectoryAsync w (documentDirectory w) = Inr files"
  shows "cleanFiles st w =
     (let r = deleteEach w (map (\<lambda>f. documentDirectory w @ f)
                (inactiveFiles files (activeFiles (playlists_data st))))
      in \<lparr>settled = Inr (), deletions = fst r, world_after = snd r\<rparr>)"
  using assms by (simp add: cleanFiles_def Let_def split_beta)

lemma cleanFiles_unreadable:
  assumes "readDirectoryAsync w (documentDirectory w) = Inl e"
  shows "cleanFiles st w = \<lparr>settled = Inl e, deletions = [], world_after = w\<rparr>"
  using assms by (simp add: cleanFiles_def Let_def)

lemma cleanFiles_deletions:
  "map fst (deletions (cleanFiles st w)) =
     map (\<lambda>f. documentDirectory w @ f)
       (case readDirectoryAsync w (documentDirectory w) of
          Inl e \<Rightarrow> []
        | Inr files \<Rightarrow> inactiveFiles files (activeFiles (playlists_data st)))"
  by (cases "readDirectoryAsync w (documentDirectory w)")
     (simp_all add: cleanFiles_readable cleanFiles_unreadable Let_def deleteEach_calls)

lemma cleanFiles_dir_files:
  "dir_files (world_after (cleanFiles st w)) =
     filter (\<lambda>(n, c). documentDirectory w @ n \<notin> set (map fst (deletions (cleanFiles st w)))
                        \<or> documentDirectory w @ n \<in> set (delete_fails w)) (dir_files w)"
proof (cases "readDirectoryAsync w (documentDirectory w)")
  case (Inl e)
  then show ?thesis by (simp add: cleanFiles_unreadable)
next
  case (Inr files)
  then show ?thesis
    by (simp add: cleanFiles_readable Let_def deleteEach_calls deleteEach_dir_files)
qed

text \<open>
  C1. Purge safety: a local file name that classifies as neither a playlist file nor an
  audio file is never deleted by \<open>cleanFiles\<close>, whatever the application state: no delete
  call is made for its path, and the file is in the directory afterwards exactly when it
  was there before.
\<close>

theorem cleanFiles_keeps_unrelated:
  assumes "\<not> isPlaylist (Some f)" and "\<not> isAudioFile (Some f)"
  shows "documentDirectory w @ f \<notin> fst ` set (deletions (cleanFiles st w))
       \<and> ((f, c) \<in> set (dir_files (world_after (cleanFiles st w)))
            \<longleftrightarrow> (f, c) \<in> set (dir_files w))"
proof -
  have "f \<notin> set (inactiveFiles files active)" for files active
    using assms by (simp add: inactiveFiles_def)
  then have notin: "documentDirectory w @ f \<notin> set (map fst (deletions (cleanFiles st w)))"
    unfolding cleanFiles_deletions by (auto split: sum.splits)
  then show ?thesis
    unfolding cleanFiles_dir_files [of st w] by auto
qed

theorem cleanFiles_keeps_unrelated_witness:
  "\<not> isPlaylist (Some (js ''stray.txt'')) \<and> \<not> isAudioFile (Some (js ''stray.txt''))
   \<and> documentDirectory example_world @ js ''stray.txt''
         \<notin> fst ` set (deletions (cleanFiles empty_state example_world))
   \<and> (js ''stray.txt'', js ''c'')
         \<in> set (dir_files (world_after (cleanFiles empty_state example_world)))"
proof -
  have h1: "\<not> isPlaylist (Some (js ''stray.txt''))"
    by (simp add: isPlaylist_def getExtension_def js_def)
  have h2: "\<not> isAudioFile (Some (js ''stray.txt''))"
    by (simp add: isAudioFile_def getExtension_def js_def)
  have h3: "(js ''stray.txt'', js ''c'') \<in> set (dir_files example_world)"
    by (simp add: example_world_def)
  show ?thesis
    using cleanFiles_keeps_unrelated [OF h1 h2, of example_world empty_state "js ''c''"] h1 h2 h3
    by simp
qed

lemma inj_prefix: "d @ n \<in> (\<lambda>f. d @ f) ` S \<longleftrightarrow> n \<in> S"
  by auto

text \<open>
  C2. Purge candidate set: when the directory can be listed, \<open>cleanFiles\<close> makes a delete
  call for exactly those local files that classify as playlist or audio and whose names
  are not in the active set (the normalised name of every tracked playlist and the
  canonical file name of every one of its tracks), in listing order; when no deletion
  fails, exactly the other files remain. In the example, with both names active nothing
  is deleted, and with no playlist \<open>p1.mix\<close> and \<open>abc_3.mp3\<close> are deleted and
  \<open>stray.txt\<close> remains.
\<close>

theorem cleanFiles_deletes_inactive:
  assumes "readDirectoryAsync w (documentDirectory w) = Inr files"
  shows "map fst (deletions (cleanFiles st w)) =
           map (\<lambda>f. documentDirectory w @ f)
             [f \<leftarrow> files. (isPlaylist (Some f) \<or> isAudioFile (Some f))
                           \<and> f \<notin> active_set (playlists_data st)]
       \<and> (delete_fails w = [] \<longrightarrow>
            map fst (dir_files (world_after (cleanFiles st w))) =
              [f \<leftarrow> files. \<not> ((isPlaylist (Some f) \<or> isAudioFile (Some f))
                               \<and> f \<notin> active_set (playlists_data st))])"
proof -
  let ?cand = "\<lambda>f. (isPlaylist (Some f) \<or> isAudioFile (Some f))
                     \<and> f \<notin> active_set (playlists_data st)"
  have inactive: "inactiveFiles files (activeFiles (playlists_data st)) = filter ?cand files"
    by (simp add: inactiveFiles_def activeFiles_active_set)
  have calls: "map fst (deletions (cleanFiles st w)) =
      map (\<lambda>f. documentDirectory w @ f) (filter ?cand files)"
    using assms inactive by (simp add: cleanFiles_deletions)
  have files: "files = map fst (dir_files w)"
    using assms by (simp add: readDirectoryAsync_def split: if_splits)
  have rest: "map fst (dir_files (world_after (cleanFiles st w))) = filter (\<lambda>f. \<not> ?cand f) files"
    if "delete_fails w = []"
  proof -
    have "dir_files (world_after (cleanFiles st w)) =
        filter (\<lambda>(n, c). \<not> (n \<in> set files \<and> ?cand n)) (dir_files w)"
      unfolding cleanFiles_dir_files [of st w] calls using that
      by (simp add: inj_prefix case_prod_unfold)
    also have "\<dots> = filter (\<lambda>(n, c). \<not> ?cand n) (dir_files w)"
      unfolding files by (rule filter_cong) force+
    finally show ?thesis
      unfolding files by (simp add: filter_map comp_def case_prod_unfold)
  qed
  from calls rest show ?thesis by blast
qed

theorem cleanFiles_deletes_inactive_witness:
  "readDirectoryAsync example_world (documentDirectory example_world)
     = Inr [js ''p1.mix'', js ''abc_3.mp3'', js ''stray.txt'']
   \<and> map fst (deletions (cleanFiles example_state example_world)) = []
   \<and> map fst (dir_files (world_after (cleanFiles example_state example_world)))
       = [js ''p1.mix'', js ''abc_3.mp3'', js ''stray.txt'']
   \<and> map fst (deletions (cleanFiles empty_state example_world))
       = [js ''file:///docs/p1.mix'', js ''file:///docs/abc_3.mp3'']
   \<and> map fst (dir_files (world_after (cleanFiles empty_state example_world)))
       = [js ''stray.txt'']"
proof -
  have r: "readDirectoryAsync example_world (documentDirectory example_world)
     = Inr [js ''p1.mix'', js ''abc_3.mp3'', js ''stray.txt'']"
    by (simp add: readDirectoryAsync_def example_world_def)
  have f: "delete_fails example_world = []"
    by (simp add: example_world_def)
  have d: "documentDirectory example_world = js ''file:///docs/''"
    by (simp add: example_world_def)
  have c1: "isPlaylist (Some (js ''p1.mix''))" "\<not> isAudioFile (Some (js ''p1.mix''))"
    "\<not> isPlaylist (Some (js ''abc_3.mp3''))" "isAudioFile (Some (js ''abc_3.mp3''))"
    "\<not> isPlaylist (Some (js ''stray.txt''))" "\<not> isAudioFile (Some (js ''stray.txt''))"
    by (simp_all add: isPlaylist_def isAudioFile_def getExtension_def js_def)
  have a0: "active_set (playlists_data empty_state) = {}"
    by (simp add: active_set_def empty_state_def)
  have n1: "createValidFileURI (js ''p1.mix'') = js ''p1.mix''"
    by (simp add: createValidFileURI_def trim_def isWhiteSpace_def js_def)
  have n2: "getFileName (Some example_track) = Some (js ''abc_3.mp3'')"
    by (simp add: getFileName_def example_track_def getExtension_def createValidFileURI_def
        trim_def isWhiteSpace_def js_def)
  have a1: "active_set (playlists_data example_state) = {js ''p1.mix'', js ''abc_3.mp3''}"
    by (auto simp: active_set_def example_state_def n1 n2)
  have s: "js ''stray.txt'' \<notin> {js ''p1.mix'', js ''abc_3.mp3''}"
    by (simp add: js_def)
  show ?thesis
    using cleanFiles_deletes_inactive [OF r, of example_state]
      cleanFiles_deletes_inactive [OF r, of empty_state] r f
    by (simp add: c1 a0 a1 s d) (simp add: js_def)
qed

text \<open>
  C8 (as the code has it). During a purge, a delete call is made for every candidate
  whatever happens to the others, every candidate whose own deletion does not fail is
  gone afterwards, and the promise of \<open>cleanFiles\<close> resolves: no deletion failure reaches
  the caller. The rejected promises are dropped: nothing is written to the console.
\<close>

theorem cleanFiles_best_effort_unlogged:
  assumes "readDirectoryAsync w (documentDirectory w) = Inr files"
  shows "settled (cleanFiles st w) = Inr ()
       \<and> map fst (deletions (cleanFiles st w)) =
           map (\<lambda>f. documentDirectory w @ f)
             (inactiveFiles files (activeFiles (playlists_data st)))
       \<and> (\<forall>f \<in> set (inactiveFiles files (activeFiles (playlists_data st))).
             documentDirectory w @ f \<notin> set (delete_fails w) \<longrightarrow>
             \<not> file_exists (world_after (cleanFiles st w)) (documentDirectory w @ f))
       \<and> console (world_after (cleanFiles st w)) = console w"
proof -
  let ?inactive = "inactiveFiles files (activeFiles (playlists_data st))"
  let ?r = "deleteEach w (map (\<lambda>f. documentDirectory w @ f) ?inactive)"
  have cf: "cleanFiles st w = \<lparr>settled = Inr (), deletions = fst ?r, world_after = snd ?r\<rparr>"
    using cleanFiles_readable [OF assms, of st] by (simp add: Let_def)
  have gone: "\<not> file_exists (snd ?r) (documentDirectory w @ f)"
    if "f \<in> set ?inactive" and "documentDirectory w @ f \<notin> set (delete_fails w)" for f
    using that by (auto simp: file_exists_def deleteEach_frame deleteEach_dir_files)
  show ?thesis
    unfolding cf using gone by (simp add: deleteEach_calls deleteEach_frame)
qed

text \<open>
  A deletion that fails during the purge leaves the console empty: the failure is not
  logged.
\<close>

theorem cleanFiles_failure_not_logged:
  "(js ''file:///docs/abc_3.mp3'', Inl (DeleteFailed (js ''file:///docs/abc_3.mp3'')))
     \<in> set (deletions (cleanFiles empty_state locked_world))
   \<and> console (world_after (cleanFiles empty_state locked_world)) = []"
  by (simp add: cleanFiles_def locked_world_def example_world_def empty_state_def
      readDirectoryAsync_def activeFiles_def inactiveFiles_def isPlaylist_def isAudioFile_def
      getExtension_def deleteAsync_def file_exists_def js_def Let_def)

theorem cleanFiles_best_effort_unlogged_witness:
  "readDirectoryAsync locked_world (documentDirectory locked_world)
     = Inr [js ''p1.mix'', js ''abc_3.mp3'', js ''stray.txt'']
   \<and> settled (cleanFiles empty_state locked_world) = Inr ()
   \<and> map fst (deletions (cleanFiles empty_state locked_world))
       = [js ''file:///docs/p1.mix'', js ''file:///docs/abc_3.mp3'']
   \<and> \<not> file_exists (world_after (cleanFiles empty_state locked_world))
           (js ''file:///docs/p1.mix'')
   \<and> console (world_after (cleanFiles empty_state locked_world)) = []"
proof -
  have r: "readDirectoryAsync locked_world (documentDirectory locked_world)
     = Inr [js ''p1.mix'', js ''abc_3.mp3'', js ''stray.txt'']"
    by (simp add: readDirectoryAsync_def locked_world_def example_world_def)
  have i: "inactiveFiles [js ''p1.mix'', js ''abc_3.mp3'', js ''stray.txt'']
      (activeFiles (playlists_data empty_state)) = [js ''p1.mix'', js ''abc_3.mp3'']"
    by (simp add: inactiveFiles_def activeFiles_def empty_state_def isPlaylist_def
        isAudioFile_def getExtension_def js_def)
  have d: "documentDirectory locked_world = js ''file:///docs/''"
    "delete_fails locked_world = [js ''file:///docs/abc_3.mp3'']"
    "console locked_world = []"
    by (simp_all add: locked_world_def example_world_def)
  show ?thesis
    using cleanFiles_best_effort_unlogged [OF r, of empty_state] r
    unfolding i d by (simp add: js_def)
qed

section \<open>Download status\<close>

lemma file_exists_names:
  assumes "map fst (dir_files w) = map fst (dir_files w')"
    and "documentDirectory w = documentDirectory w'"
  shows "file_exists w p = file_exists w' p"
proof -
  have "map (\<lambda>(n, c). documentDirectory w @ n) (dir_files w)
      = map (\<lambda>n. documentDirectory w @ n) (map fst (dir_files w))"
    by (simp add: case_prod_unfold)
  moreover have "map (\<lambda>(n, c). documentDirectory w' @ n) (dir_files w')
      = map (\<lambda>n. documentDirectory w' @ n) (map fst (dir_files w'))"
    by (simp add: case_prod_unfold)
  ultimately show ?thesis
    using assms unfolding file_exists_def by simp
qed

text \<open>
  C5. For every track \<open>t\<close>, \<open>isDownloaded\<close> resolves to a copy of \<open>t\<close> whose
  \<open>downloadStatus\<close> is 100 when a file exists at \<open>getFilePath t\<close> and \<open>null\<close> otherwise;
  every other field of \<open>t\<close> is unchanged. Only the existence of the file counts: two
  directories with the same names give the same result whatever the files hold.
\<close>

theorem isDownloaded_existence_frame:
  "(\<exists>n. getFileName (Some t) = Some n
        \<and> getFilePath (documentDirectory w) (Some t) = Some (documentDirectory w @ n)
        \<and> isDownloaded w t =
            Inr (t\<lparr>downloadStatus :=
                  (if file_exists w (documentDirectory w @ n) then Some 100 else None)\<rparr>))
   \<and> (\<forall>t'. isDownloaded w t = Inr t' \<longrightarrow>
          track_id t' = track_id t \<and> track_rev t' = track_rev t
          \<and> track_name t' = track_name t \<and> track.more t' = track.more t)
   \<and> (map fst (dir_files w) = map fst (dir_files w')
        \<and> documentDirectory w = documentDirectory w'
        \<longrightarrow> isDownloaded w t = isDownloaded w' t)"
proof (intro conjI allI impI)
  show "\<exists>n. getFileName (Some t) = Some n
        \<and> getFilePath (documentDirectory w) (Some t) = Some (documentDirectory w @ n)
        \<and> isDownloaded w t =
            Inr (t\<lparr>downloadStatus :=
                  (if file_exists w (documentDirectory w @ n) then Some 100 else None)\<rparr>)"
    by (simp add: isDownloaded_def getInfoAsync_def getFilePath_def getFileName_def)
next
  fix t' assume "isDownloaded w t = Inr t'"
  then have "t' = t\<lparr>downloadStatus := downloadStatus t'\<rparr>"
    by (auto simp: isDownloaded_def getInfoAsync_def getFilePath_def getFileName_def)
  then have eq: "track_id t' = track_id t \<and> track_rev t' = track_rev t
      \<and> track_name t' = track_name t \<and> track.more t' = track.more t"
    by (metis track.select_convs(1,2,3,5) track.surjective track.update_convs(4))
  from eq show "track_id t' = track_id t" by simp
  from eq show "track_rev t' = track_rev t" by simp
  from eq show "track_name t' = track_name t" by simp
  from eq show "track.more t' = track.more t" by simp
next
  assume "map fst (dir_files w) = map fst (dir_files w') \<and>
      documentDirectory w = documentDirectory w'"
  then show "isDownloaded w t = isDownloaded w' t"
    using file_exists_names [of w w']
    by (simp add: isDownloaded_def getInfoAsync_def getFilePath_def getFileName_def)
qed

theorem isDownloaded_existence_frame_witness:
  "isDownloaded example_world example_track = Inr (example_track\<lparr>downloadStatus := Some 100\<rparr>)
   \<and> isDownloaded stale_world example_track = Inr (example_track\<lparr>downloadStatus := Some 100\<rparr>)
   \<and> isDownloaded (example_world\<lparr>dir_files := []\<rparr>) example_track
       = Inr (example_track\<lparr>downloadStatus := None\<rparr>)"
proof -
  have n: "getFileName (Some example_track) = Some (js ''abc_3.mp3'')"
    by (simp add: getFileName_def example_track_def getExtension_def createValidFileURI_def
        trim_def isWhiteSpace_def js_def)
  have e: "file_exists example_world (documentDirectory example_world @ js ''abc_3.mp3'')"
    "\<not> file_exists (example_world\<lparr>dir_files := []\<rparr>)
        (documentDirectory (example_world\<lparr>dir_files := []\<rparr>) @ js ''abc_3.mp3'')"
    by (simp_all add: file_exists_def example_world_def js_def)
  have s: "map fst (dir_files example_world) = map fst (dir_files stale_world)
      \<and> documentDirectory example_world = documentDirectory stale_world"
    by (simp add: stale_world_def example_world_def)
  note a = isDownloaded_existence_frame [of example_track example_world stale_world]
  note b = isDownloaded_existence_frame [of example_track "example_world\<lparr>dir_files := []\<rparr>"
      stale_world]
  have 1: "isDownloaded example_world example_track
      = Inr (example_track\<lparr>downloadStatus := Some 100\<rparr>)"
    using a [THEN conjunct1] n e(1) by auto
  have 2: "isDownloaded stale_world example_track = isDownloaded example_world example_track"
    using a [THEN conjunct2, THEN conjunct2] s by simp
  have 3: "isDownloaded (example_world\<lparr>dir_files := []\<rparr>) example_track
       = Inr (example_track\<lparr>downloadStatus := None\<rparr>)"
    using b [THEN conjunct1] n e(2) by auto
  from 1 2 3 show ?thesis by simp
qed

section \<open>Remote entries\<close>








lemma set_js_foldl:
  "set (foldl (\<lambda>seen x. if x \<in> set seen then seen else seen @ [x]) acc xs) = set acc \<union> set xs"
  by (induction xs arbitrary: acc) auto

lemma distinct_js_foldl:
  "distinct acc \<Longrightarrow>
     distinct (foldl (\<lambda>seen x. if x \<in> set seen then seen else seen @ [x]) acc xs)"
  by (induction xs arbitrary: acc) auto

text \<open>
  C10. For every list of entries, \<open>getModifiedUsersFromEntries\<close> returns the distinct
  non-empty \<open>modified_by\<close> values of the entries, each once; an entry without
  \<open>sharing_info\<close> or without \<open>modified_by\<close> contributes nothing and raises no error.
\<close>

theorem getModifiedUsersFromEntries_distinct_nonempty:
  "set (getModifiedUsersFromEntries es)
     = {Some u | u. u \<noteq> [] \<and> (\<exists>e \<in> set es. getModifiedBy e = Some u)}
   \<and> distinct (getModifiedUsersFromEntries es)"
proof
  show "set (getModifiedUsersFromEntries es)
     = {Some u | u. u \<noteq> [] \<and> (\<exists>e \<in> set es. getModifiedBy e = Some u)}"
  proof -
    have "set (getModifiedUsersFromEntries es) = {v \<in> getModifiedBy ` set es. truthy v}"
      by (auto simp: getModifiedUsersFromEntries_def set_js_def set_js_foldl)
    also have "\<dots> = {Some u | u. u \<noteq> [] \<and> (\<exists>e \<in> set es. getModifiedBy e = Some u)}"
    proof (intro set_eqI iffI)
      fix v assume "v \<in> {v \<in> getModifiedBy ` set es. truthy v}"
      then obtain e where e: "e \<in> set es" "v = getModifiedBy e" "truthy v" by auto
      from e(3) obtain u where "v = Some u" "u \<noteq> []"
        by (cases v) (simp_all add: truthy_def)
      with e show "v \<in> {Some u | u. u \<noteq> [] \<and> (\<exists>e \<in> set es. getModifiedBy e = Some u)}"
        by force
    next
      fix v assume "v \<in> {Some u | u. u \<noteq> [] \<and> (\<exists>e \<in> set es. getModifiedBy e = Some u)}"
      then obtain u e where "v = Some u" "u \<noteq> []" "e \<in> set es" "getModifiedBy e = Some u"
        by blast
      then show "v \<in> {v \<in> getModifiedBy ` set es. truthy v}"
        by (force simp: truthy_def)
    qed
    finally show ?thesis .
  qed
next
  show "distinct (getModifiedUsersFromEntries es)"
    by (simp add: getModifiedUsersFromEntries_def set_js_def distinct_js_foldl)
qed

theorem getModifiedUsersFromEntries_distinct_nonempty_witness:
  "getModifiedUsersFromEntries example_entries = [Some (js ''u1''), Some (js ''u2'')]
   \<and> set (getModifiedUsersFromEntries example_entries)
       = {Some u | u. u \<noteq> [] \<and> (\<exists>e \<in> set example_entries. getModifiedBy e = Some u)}
   \<and> distinct (getModifiedUsersFromEntries example_entries)"
proof -
  have m: "map getModifiedBy example_entries
      = [None, Some (js ''u1''), Some (js ''u1''), Some [], Some (js ''u2''), None]"
    by (simp add: example_entries_def getModifiedBy_def example_entry_def example_entry'_def)
  have u: "js ''u1'' \<noteq> js ''u2''" "js ''u1'' \<noteq> []" "js ''u2'' \<noteq> []"
    "[] \<noteq> js ''u1''" "[] \<noteq> js ''u2''" "js ''u2'' \<noteq> js ''u1''"
    by (simp_all add: js_def)
  have "getModifiedUsersFromEntries example_entries = [Some (js ''u1''), Some (js ''u2'')]"
    unfolding getModifiedUsersFromEntries_def m set_js_def
    by (simp add: truthy_def u)
  then show ?thesis
    using getModifiedUsersFromEntries_distinct_nonempty [of example_entries] by blast
qed

section \<open>Canonical file names\<close>

lemma dot_not_in_normalized: "dot \<notin> set s \<Longrightarrow> dot \<notin> set (map normalize_unit s)"
  by (induction s) (auto simp: normalize_unit_def)

lemma not_ws: "\<not> isWhiteSpace underscore" "\<not> isWhiteSpace dot"
  by (simp_all add: isWhiteSpace_def)

lemma normalize_unit_sep: "normalize_unit underscore = underscore" "normalize_unit dot = dot"
  by (simp_all add: normalize_unit_def)

lemma createValidFileURI_parts:
  "createValidFileURI (i @ [underscore] @ r @ [dot] @ x) =
     (canonical_id i @ underscore # canonical_rev r) @ dot # canonical_ext x"
proof -
  let ?i = "map normalize_unit i" and ?r = "map normalize_unit r" and ?x = "map normalize_unit x"
  have m: "map normalize_unit (i @ [underscore] @ r @ [dot] @ x) = ?i @ underscore # ?r @ dot # ?x"
    by (simp add: normalize_unit_sep)
  have d: "dropWhile isWhiteSpace (?i @ underscore # ?r @ dot # ?x)
      = canonical_id i @ underscore # ?r @ dot # ?x"
    unfolding canonical_id_def by (rule dropWhile_append3) (rule not_ws)
  have "rev (canonical_id i @ underscore # ?r @ dot # ?x)
      = rev ?x @ dot # rev (canonical_id i @ underscore # ?r)"
    by simp
  moreover have "dropWhile isWhiteSpace (rev ?x @ dot # rev (canonical_id i @ underscore # ?r))
      = dropWhile isWhiteSpace (rev ?x) @ dot # rev (canonical_id i @ underscore # ?r)"
    by (rule dropWhile_append3) (rule not_ws)
  ultimately have "dropWhile isWhiteSpace (rev (canonical_id i @ underscore # ?r @ dot # ?x))
      = dropWhile isWhiteSpace (rev ?x) @ dot # rev (canonical_id i @ underscore # ?r)"
    by (simp only:)
  then have "trim (?i @ underscore # ?r @ dot # ?x)
      = (canonical_id i @ underscore # ?r) @ dot # rev (dropWhile isWhiteSpace (rev ?x))"
    unfolding trim_def d by simp
  then show ?thesis
    by (simp only: createValidFileURI_map m canonical_rev_def canonical_ext_def)
qed

lemma split_at_first:
  "xs @ a # ys = xs' @ a # ys' \<Longrightarrow> a \<notin> set xs \<Longrightarrow> a \<notin> set xs' \<Longrightarrow> xs = xs' \<and> ys = ys'"
proof (induction xs arbitrary: xs')
  case Nil
  then show ?case by (cases xs') auto
next
  case (Cons x xs)
  then show ?case by (cases xs') auto
qed

lemma split_at_last:
  assumes "a \<notin> set ys" "a \<notin> set ys'" "xs @ a # ys = xs' @ a # ys'"
  shows "xs = xs' \<and> ys = ys'"
proof -
  from assms(3) have "rev ys @ a # rev xs = rev ys' @ a # rev xs'"
    by (metis rev.simps(2) rev_append append.assoc append_Cons append_Nil)
  moreover have "a \<notin> set (rev ys)" "a \<notin> set (rev ys')"
    using assms(1,2) by simp_all
  ultimately have "rev ys = rev ys' \<and> rev xs = rev xs'"
    by (rule split_at_first)
  then show ?thesis by simp
qed

lemma canonical_ext_no_dot: "dot \<notin> set (canonical_ext (getExtension n))"
proof -
  have "dot \<notin> set (map normalize_unit (getExtension n))"
    by (rule dot_not_in_normalized) (simp add: getExtension_def last_split_js_no_sep)
  then show ?thesis
    unfolding canonical_ext_def using set_dropWhileD by fastforce
qed

lemma getFileName_parts:
  "getFileName (Some t) =
     Some ((canonical_id (track_id t) @ underscore # canonical_rev (track_rev t))
           @ dot # canonical_ext (getExtension (track_name t)))"
  by (simp only: getFileName_def option.case createValidFileURI_parts)

lemma getFileName_eq_iff:
  fixes t1 t2 :: "'a track_scheme"
  shows "getFileName (Some t1) = getFileName (Some t2) \<longleftrightarrow>
     canonical_id (track_id t1) @ [underscore] @ canonical_rev (track_rev t1)
       = canonical_id (track_id t2) @ [underscore] @ canonical_rev (track_rev t2)
     \<and> canonical_ext (getExtension (track_name t1)) = canonical_ext (getExtension (track_name t2))"
proof
  assume "getFileName (Some t1) = getFileName (Some t2)"
  then have "(canonical_id (track_id t1) @ underscore # canonical_rev (track_rev t1))
           @ dot # canonical_ext (getExtension (track_name t1))
      = (canonical_id (track_id t2) @ underscore # canonical_rev (track_rev t2))
           @ dot # canonical_ext (getExtension (track_name t2))"
    by (simp only: getFileName_parts option.inject)
  then show "canonical_id (track_id t1) @ [underscore] @ canonical_rev (track_rev t1)
       = canonical_id (track_id t2) @ [underscore] @ canonical_rev (track_rev t2)
     \<and> canonical_ext (getExtension (track_name t1)) = canonical_ext (getExtension (track_name t2))"
    using split_at_last [OF canonical_ext_no_dot [of "track_name t1"]
        canonical_ext_no_dot [of "track_name t2"],
        of "canonical_id (track_id t1) @ underscore # canonical_rev (track_rev t1)"
           "canonical_id (track_id t2) @ underscore # canonical_rev (track_rev t2)"]
    by simp
next
  assume "canonical_id (track_id t1) @ [underscore] @ canonical_rev (track_rev t1)
       = canonical_id (track_id t2) @ [underscore] @ canonical_rev (track_rev t2)
     \<and> canonical_ext (getExtension (track_name t1)) = canonical_ext (getExtension (track_name t2))"
  then show "getFileName (Some t1) = getFileName (Some t2)"
    by (simp add: getFileName_parts)
qed

lemma joined_eq_iff:
  assumes "(underscore \<notin> set r1 \<and> underscore \<notin> set r2) \<or> (underscore \<notin> set i1 \<and> underscore \<notin> set i2)"
  shows "i1 @ [underscore] @ r1 = i2 @ [underscore] @ r2 \<longleftrightarrow> i1 = i2 \<and> r1 = r2"
proof
  assume e: "i1 @ [underscore] @ r1 = i2 @ [underscore] @ r2"
  from assms show "i1 = i2 \<and> r1 = r2"
  proof
    assume "underscore \<notin> set r1 \<and> underscore \<notin> set r2"
    then show ?thesis using split_at_last [of underscore r1 r2 i1 i2] e by simp
  next
    assume "underscore \<notin> set i1 \<and> underscore \<notin> set i2"
    then show ?thesis using split_at_first [of i1 underscore r1 i2 r2] e by simp
  qed
next
  assume "i1 = i2 \<and> r1 = r2"
  then show "i1 @ [underscore] @ r1 = i2 @ [underscore] @ r2" by simp
qed

text \<open>
  C3 (as the code has it). The canonical file name of a track is a function of its id,
  its revision and the extension of its name only, and so is the path built from it; the
  track \<open>{id: abc, rev: 3, name: My Song.mp3}\<close> gets \<open>abc_3.mp3\<close>. Two tracks get the
  same name (and the same path) exactly when their normalised ids joined to their
  normalised revisions by an underscore agree and their normalised extensions agree.
  So when both normalised revisions, or both normalised ids, hold no underscore, the
  names differ exactly when the normalised ids, the normalised revisions or the
  normalised extensions differ.
\<close>

theorem getFileName_deterministic_injective:
  "getFileName (Some example_track) = Some (js ''abc_3.mp3'')
   \<and> (track_id (t1 :: 'a track_scheme) = track_id (t2 :: 'a track_scheme)
        \<and> track_rev t1 = track_rev t2
        \<and> getExtension (track_name t1) = getExtension (track_name t2)
      \<longrightarrow> getFileName (Some t1) = getFileName (Some t2)
          \<and> getFilePath d (Some t1) = getFilePath d (Some t2))
   \<and> (getFilePath d (Some t1) = getFilePath d (Some t2)
        \<longleftrightarrow> getFileName (Some t1) = getFileName (Some t2))
   \<and> (getFileName (Some t1) = getFileName (Some t2) \<longleftrightarrow>
        canonical_id (track_id t1) @ [underscore] @ canonical_rev (track_rev t1)
          = canonical_id (track_id t2) @ [underscore] @ canonical_rev (track_rev t2)
        \<and> canonical_ext (getExtension (track_name t1))
          = canonical_ext (getExtension (track_name t2)))
   \<and> ((underscore \<notin> set (canonical_rev (track_rev t1))
         \<and> underscore \<notin> set (canonical_rev (track_rev t2)))
        \<or> (underscore \<notin> set (canonical_id (track_id t1))
           \<and> underscore \<notin> set (canonical_id (track_id t2)))
      \<longrightarrow> (getFileName (Some t1) = getFileName (Some t2) \<longleftrightarrow>
            canonical_id (track_id t1) = canonical_id (track_id t2)
            \<and> canonical_rev (track_rev t1) = canonical_rev (track_rev t2)
            \<and> canonical_ext (getExtension (track_name t1))
              = canonical_ext (getExtension (track_name t2))))"
proof (intro conjI impI)
  show "getFileName (Some example_track) = Some (js ''abc_3.mp3'')"
    by (simp add: getFileName_def example_track_def getExtension_def createValidFileURI_def
        trim_def isWhiteSpace_def js_def)
next
  assume a: "track_id t1 = track_id t2 \<and> track_rev t1 = track_rev t2
        \<and> getExtension (track_name t1) = getExtension (track_name t2)"
  then show "getFileName (Some t1) = getFileName (Some t2)"
    by (simp add: getFileName_def)
  with a show "getFilePath d (Some t1) = getFilePath d (Some t2)"
    by (simp add: getFilePath_def)
next
  show "getFilePath d (Some t1) = getFilePath d (Some t2)
        \<longleftrightarrow> getFileName (Some t1) = getFileName (Some t2)"
    by (simp add: getFilePath_def getFileName_parts)
next
  show "getFileName (Some t1) = getFileName (Some t2) \<longleftrightarrow>
        canonical_id (track_id t1) @ [underscore] @ canonical_rev (track_rev t1)
          = canonical_id (track_id t2) @ [underscore] @ canonical_rev (track_rev t2)
        \<and> canonical_ext (getExtension (track_name t1))
          = canonical_ext (getExtension (track_name t2))"
    by (rule getFileName_eq_iff)
next
  assume "(underscore \<notin> set (canonical_rev (track_rev t1))
         \<and> underscore \<notin> set (canonical_rev (track_rev t2)))
        \<or> (underscore \<notin> set (canonical_id (track_id t1))
           \<and> underscore \<notin> set (canonical_id (track_id t2)))"
  then show "getFileName (Some t1) = getFileName (Some t2) \<longleftrightarrow>
            canonical_id (track_id t1) = canonical_id (track_id t2)
            \<and> canonical_rev (track_rev t1) = canonical_rev (track_rev t2)
            \<and> canonical_ext (getExtension (track_name t1))
              = canonical_ext (getExtension (track_name t2))"
    unfolding getFileName_eq_iff by (simp only: joined_eq_iff conj_assoc)
qed

text \<open>
  Pairs that differ only before normalisation collide: the ids \<open>a-b\<close> and \<open>a_b\<close> with the
  same revision give the same file name.
\<close>

theorem getFileName_collision:
  "(track_id hyphen_track, track_rev hyphen_track)
     \<noteq> (track_id underscore_track, track_rev underscore_track)
   \<and> getFileName (Some hyphen_track) = Some (js ''a_b_3.mp3'')
   \<and> getFileName (Some underscore_track) = Some (js ''a_b_3.mp3'')"
  by (simp add: getFileName_def hyphen_track_def underscore_track_def getExtension_def
      createValidFileURI_def trim_def isWhiteSpace_def js_def)

theorem getFileName_deterministic_injective_witness:
  "underscore \<notin> set (canonical_rev (track_rev hyphen_track))
   \<and> underscore \<notin> set (canonical_rev (track_rev hyphen_track_rev4))
   \<and> canonical_id (track_id hyphen_track) = canonical_id (track_id hyphen_track_rev4)
   \<and> canonical_rev (track_rev hyphen_track) \<noteq> canonical_rev (track_rev hyphen_track_rev4)
   \<and> getFileName (Some hyphen_track) \<noteq> getFileName (Some hyphen_track_rev4)
   \<and> getFilePath (js ''file:///docs/'') (Some hyphen_track)
       \<noteq> getFilePath (js ''file:///docs/'') (Some hyphen_track_rev4)
   \<and> getFileName (Some example_track) = Some (js ''abc_3.mp3'')
   \<and> getFileName (Some example_track) \<noteq> getFileName (Some other_track)
   \<and> getFilePath (js ''file:///docs/'') (Some (example_track\<lparr>downloadStatus := Some 7\<rparr>))
       = getFilePath (js ''file:///docs/'') (Some example_track)"
proof -
  have r: "canonical_rev (track_rev hyphen_track) = js ''3''"
    "canonical_rev (track_rev hyphen_track_rev4) = js ''4''"
    "canonical_rev (track_rev example_track) = js ''3''"
    "canonical_rev (track_rev other_track) = js ''3''"
    by (simp_all add: canonical_rev_def hyphen_track_def hyphen_track_rev4_def
        example_track_def other_track_def normalize_unit_def js_def)
  have i: "canonical_id (track_id hyphen_track) = js ''a_b''"
    "canonical_id (track_id hyphen_track_rev4) = js ''a_b''"
    "canonical_id (track_id example_track) = js ''abc''"
    "canonical_id (track_id other_track) = js ''abd''"
    by (simp_all add: canonical_id_def hyphen_track_def hyphen_track_rev4_def
        example_track_def other_track_def normalize_unit_def isWhiteSpace_def js_def)
  have u: "underscore \<notin> set (js ''3'')" "underscore \<notin> set (js ''4'')"
    "js ''3'' \<noteq> js ''4''" "js ''abc'' \<noteq> js ''abd''"
    by (simp_all add: js_def)
  note a = getFileName_deterministic_injective
    [of hyphen_track hyphen_track_rev4 "js ''file:///docs/''"]
  note b = getFileName_deterministic_injective
    [of example_track other_track "js ''file:///docs/''"]
  note c = getFileName_deterministic_injective
    [of "example_track\<lparr>downloadStatus := Some 7\<rparr>" example_track "js ''file:///docs/''"]
  have 1: "getFileName (Some hyphen_track) \<noteq> getFileName (Some hyphen_track_rev4)"
    using a unfolding r i using u by blast
  have 2: "getFilePath (js ''file:///docs/'') (Some hyphen_track)
       \<noteq> getFilePath (js ''file:///docs/'') (Some hyphen_track_rev4)"
    using a 1 by blast
  have 3: "getFileName (Some example_track) = Some (js ''abc_3.mp3'')"
    using b by blast
  have 4: "getFileName (Some example_track) \<noteq> getFileName (Some other_track)"
    using b unfolding r i using u by blast
  have 5: "getFilePath (js ''file:///docs/'') (Some (example_track\<lparr>downloadStatus := Some 7\<rparr>))
       = getFilePath (js ''file:///docs/'') (Some example_track)"
    using c by simp
  from 1 2 3 4 5 show ?thesis
    unfolding r i using u by simp
qed

section \<open>The Dropbox-API-Arg header\<close>

lemma hexDigit_ascii: "d < 16 \<Longrightarrow> hexDigit d < 0x7F"
proof -
  assume "d < 16"
  then have "hexDigit d \<in> set (js ''0123456789abcdef'')"
    unfolding hexDigit_def by (intro nth_mem) (simp add: js_def)
  then show ?thesis
    by (auto simp: js_def)
qed

lemma toString16_digits:
  "n < 16 \<Longrightarrow> toString16 n = [hexDigit n]"
  "16 \<le> n \<Longrightarrow> n < 256 \<Longrightarrow> toString16 n = [hexDigit (n div 16), hexDigit (n mod 16)]"
  "256 \<le> n \<Longrightarrow> n < 4096 \<Longrightarrow>
     toString16 n = [hexDigit (n div 256), hexDigit (n div 16 mod 16), hexDigit (n mod 16)]"
  "4096 \<le> n \<Longrightarrow> n < 65536 \<Longrightarrow>
     toString16 n = [hexDigit (n div 4096), hexDigit (n div 256 mod 16),
                     hexDigit (n div 16 mod 16), hexDigit (n mod 16)]"
proof -
  show 1: "toString16 n = [hexDigit n]" if "n < 16" for n
    using that by (simp add: toString16.simps [of n])
  show 2: "toString16 n = [hexDigit (n div 16), hexDigit (n mod 16)]"
    if "16 \<le> n" "n < 256" for n
  proof -
    have "n div 16 < 16" using that by simp
    then show ?thesis
      using that 1 [of "n div 16"] by (simp add: toString16.simps [of n])
  qed
  show 3: "toString16 n = [hexDigit (n div 256), hexDigit (n div 16 mod 16), hexDigit (n mod 16)]"
    if "256 \<le> n" "n < 4096" for n
  proof -
    have "16 \<le> n div 16" "n div 16 < 256" using that by simp_all
    moreover have "n div 16 div 16 = n div 256"
      by (simp flip: div_mult2_eq)
    ultimately show ?thesis
      using that 2 [of "n div 16"] by (simp add: toString16.simps [of n])
  qed
  show "toString16 n = [hexDigit (n div 4096), hexDigit (n div 256 mod 16),
                     hexDigit (n div 16 mod 16), hexDigit (n mod 16)]"
    if "4096 \<le> n" "n < 65536" for n
  proof -
    have "256 \<le> n div 16" "n div 16 < 4096" using that by simp_all
    moreover have "n div 16 div 256 = n div 4096" "n div 16 div 16 = n div 256"
      by (simp_all flip: div_mult2_eq)
    ultimately show ?thesis
      using that 3 [of "n div 16"] by (simp add: toString16.simps [of n])
  qed
qed

lemma hexDigit_0: "hexDigit 0 = 0x30"
  by (simp add: hexDigit_def js_def)

lemma slice_pad_hex4:
  assumes "n < 65536"
  shows "slice_last 4 (js ''000'' @ toString16 n) = hex4 n"
proof -
  consider "n < 16" | "16 \<le> n" "n < 256" | "256 \<le> n" "n < 4096" | "4096 \<le> n"
    by linarith
  then show ?thesis
  proof cases
    case 1
    then show ?thesis
      by (simp add: toString16_digits slice_last_def hex4_def js_def hexDigit_0)
  next
    case 2
    then show ?thesis
      by (simp add: toString16_digits slice_last_def hex4_def js_def hexDigit_0)
  next
    case 3
    then show ?thesis
      by (simp add: toString16_digits slice_last_def hex4_def js_def hexDigit_0)
  next
    case 4
    then have "n div 4096 < 16" using assms by simp
    with 4 assms show ?thesis
      by (simp add: toString16_digits slice_last_def hex4_def js_def)
  qed
qed

lemma unat_code_unit: "unat (c :: code_unit) < 65536"
  using unsigned_less [of c, where ?'a = nat] by simp

lemma code_unit_le_max: "(c :: code_unit) \<le> 0xFFFF"
  by (simp add: word_le_nat_alt) (use unat_code_unit [of c] in simp)

lemma cleanHeader_map:
  "cleanHeader h =
     concat (map (\<lambda>c. if 0x7F \<le> c then [backslash, letter_u] @ hex4 (unat c) else [c])
               (JSON_stringify h))"
proof -
  have "(\<lambda>char. if 0x7F \<le> char \<and> char \<le> 0xFFFF
                then [backslash, letter_u] @ slice_last 4 (js ''000'' @ toString16 (unat char))
                else [char])
      = (\<lambda>c. if 0x7F \<le> c then [backslash, letter_u] @ hex4 (unat c) else [c])"
    by (rule ext) (simp add: code_unit_le_max slice_pad_hex4 unat_code_unit)
  then show ?thesis
    by (simp only: cleanHeader_def)
qed

lemma hex4_ascii: "x \<in> set (hex4 n) \<Longrightarrow> x < 0x7F"
  by (auto simp: hex4_def hexDigit_ascii)

lemma cleanHeader_ascii: "x \<in> set (cleanHeader h) \<Longrightarrow> x < 0x7F"
  unfolding cleanHeader_map
  by (auto simp: not_le dest: hex4_ascii split: if_splits)


lemma above_7E: "(0x7E < (c :: code_unit)) = (0x7F \<le> c)"
  by (simp add: word_less_nat_alt word_le_nat_alt) arith

lemmas header_eval =
  createDownloader_def cleanHeader_def JSON_stringify_def quoteJSONString_def
  quoteJSONUnit_def isHighSurrogate_def isLowSurrogate_def unicodeEscape_def
  slice_last_def toString16.simps hexDigit_def js_def Let_def

text \<open>
  C6 (as the code has it). For every remote path, the \<open>Dropbox-API-Arg\<close> header built by
  \<open>createDownloader\<close> is the JSON encoding of \<open>{path: remote}\<close> in which every code unit
  at or above U+007F is replaced by \<open>\u\<close> and exactly four hexadecimal digits, so the
  value holds code units below U+007F only; for the path \<open>/\<close> followed by U+00C9 the
  value is \<open>{"path":"/\u00c9"}\<close>.
\<close>

theorem createDownloader_api_arg_escaped:
  "dr_Dropbox_API_Arg (createDownloader d local remote st cb)
     = escape_above 0x7E (JSON_stringify \<lparr>header_path = remote\<rparr>)
   \<and> (\<forall>x \<in> set (dr_Dropbox_API_Arg (createDownloader d local remote st cb)). x < 0x7F)
   \<and> dr_Dropbox_API_Arg (createDownloader d local [0x2F, 0xC9] st cb)
       = [0x7B, dquote] @ js ''path'' @ [dquote, 0x3A, dquote, 0x2F, backslash]
         @ js ''u00c9'' @ [dquote, 0x7D]"
proof (intro conjI ballI)
  show "dr_Dropbox_API_Arg (createDownloader d local remote st cb)
     = escape_above 0x7E (JSON_stringify \<lparr>header_path = remote\<rparr>)"
    by (simp add: createDownloader_def cleanHeader_map escape_above_def above_7E)
next
  fix x assume "x \<in> set (dr_Dropbox_API_Arg (createDownloader d local remote st cb))"
  then show "x < 0x7F"
    by (simp add: createDownloader_def cleanHeader_ascii)
next
  show "dr_Dropbox_API_Arg (createDownloader d local [0x2F, 0xC9] st cb)
       = [0x7B, dquote] @ js ''path'' @ [dquote, 0x3A, dquote, 0x2F, backslash]
         @ js ''u00c9'' @ [dquote, 0x7D]"
    by (simp add: header_eval)
qed

text \<open>
  U+007F itself is escaped by the code, which the transform that replaces the code units
  above U+007F would leave as it is.
\<close>

theorem createDownloader_escapes_7F:
  "dr_Dropbox_API_Arg
     (createDownloader (js ''file:///docs/'') (js ''abc_3.mp3'') [0x7F] example_state ())
     = [0x7B, dquote] @ js ''path'' @ [dquote, 0x3A, dquote, backslash]
       @ js ''u007f'' @ [dquote, 0x7D]
   \<and> header_above_7F [0x7F]
     = [0x7B, dquote] @ js ''path'' @ [dquote, 0x3A, dquote, 0x7F, dquote, 0x7D]
   \<and> dr_Dropbox_API_Arg
     (createDownloader (js ''file:///docs/'') (js ''abc_3.mp3'') [0x7F] example_state ())
     \<noteq> header_above_7F [0x7F]"
  by (simp add: header_eval header_above_7F_def escape_above_def)

theorem createDownloader_api_arg_escaped_witness:
  "dr_Dropbox_API_Arg
     (createDownloader (js ''file:///docs/'') (js ''abc_3.mp3'') [0x2F, 0xC9] example_state ())
     = [0x7B, dquote] @ js ''path'' @ [dquote, 0x3A, dquote, 0x2F, backslash]
       @ js ''u00c9'' @ [dquote, 0x7D]
   \<and> backslash \<in> set (dr_Dropbox_API_Arg
       (createDownloader (js ''file:///docs/'') (js ''abc_3.mp3'') [0x2F, 0xC9] example_state ()))
   \<and> backslash < (0x7F :: code_unit)"
proof -
  note a = createDownloader_api_arg_escaped
    [of "js ''file:///docs/''" "js ''abc_3.mp3''" "[0x2F, 0xC9]" example_state "()"]
  have 1: "dr_Dropbox_API_Arg
     (createDownloader (js ''file:///docs/'') (js ''abc_3.mp3'') [0x2F, 0xC9] example_state ())
     = [0x7B, dquote] @ js ''path'' @ [dquote, 0x3A, dquote, 0x2F, backslash]
       @ js ''u00c9'' @ [dquote, 0x7D]"
    using a by blast
  have 2: "backslash \<in> set (dr_Dropbox_API_Arg
       (createDownloader (js ''file:///docs/'') (js ''abc_3.mp3'') [0x2F, 0xC9] example_state ()))"
    unfolding 1 by simp
  with a have "backslash < (0x7F :: code_unit)" by blast
  with 1 2 show ?thesis by blast
qed

section \<open>Supersession of download sessions\<close>

lemma find_session_None:
  "sid \<notin> session_id ` set (in_flight m) \<Longrightarrow> find_session m sid = None"
  by (auto simp: find_session_def find_None_iff)

lemma find_session_Some:
  "find_session m sid = Some s \<Longrightarrow> s \<in> set (in_flight m) \<and> session_id s = sid"
  by (auto simp: find_session_def find_Some_iff)

lemma step_Start:
  "in_flight (manager_step d st m (Start t l r)) =
     \<lparr>session_id = next_session m, session_track = t,
      session_downloader = createDownloader d l r st (next_session m)\<rparr>
     # filter (\<lambda>s. session_track s \<noteq> t) (in_flight m)"
  "next_session (manager_step d st m (Start t l r)) = next_session m + 1"
  "cancelled (manager_step d st m (Start t l r)) =
     cancelled m @ map session_id (filter (\<lambda>s. session_track s = t) (in_flight m))"
  by (simp_all add: Let_def)

lemma step_Progress:
  "in_flight (manager_step d st m (Progress sid pct)) = in_flight m"
  "next_session (manager_step d st m (Progress sid pct)) = next_session m"
  by (simp_all split: option.splits)

lemma step_Complete:
  "set (in_flight (manager_step d st m (Complete sid))) \<subseteq> set (in_flight m)"
  "distinct (map f (in_flight m)) \<Longrightarrow>
     distinct (map f (in_flight (manager_step d st m (Complete sid))))"
  "next_session (manager_step d st m (Complete sid)) = next_session m"
  by (auto simp: distinct_map_filter split: option.splits)

lemma manager_ok_initial: "manager_ok initial_manager"
  by (simp add: manager_ok_def initial_manager_def)

lemma manager_ok_step:
  assumes "manager_ok m"
  shows "manager_ok (manager_step d st m e)"
proof (cases e)
  case (Start t l r)
  from assms have a: "distinct (map session_track (in_flight m))"
    "distinct (map session_id (in_flight m))"
    "\<And>s. s \<in> set (in_flight m) \<Longrightarrow> session_id s < next_session m"
    by (simp_all add: manager_ok_def)
  let ?rest = "filter (\<lambda>s. session_track s \<noteq> t) (in_flight m)"
  have "t \<notin> session_track ` set ?rest" by auto
  moreover have "distinct (map session_track ?rest)"
    using a(1) by (rule distinct_map_filter)
  moreover have "next_session m \<notin> session_id ` set ?rest"
    using a(3) by fastforce
  moreover have "distinct (map session_id ?rest)"
    using a(2) by (rule distinct_map_filter)
  moreover have "\<forall>s \<in> set ?rest. session_id s < next_session m + 1"
    using a(3) by fastforce
  ultimately show ?thesis
    unfolding Start manager_ok_def step_Start by simp
next
  case (Progress sid pct)
  with assms show ?thesis
    unfolding manager_ok_def by (simp add: step_Progress del: manager_step.simps)
next
  case (Complete sid)
  from assms have a: "distinct (map session_track (in_flight m))"
    "distinct (map session_id (in_flight m))"
    "\<And>s. s \<in> set (in_flight m) \<Longrightarrow> session_id s < next_session m"
    by (simp_all add: manager_ok_def)
  show ?thesis
    unfolding Complete manager_ok_def
    using a step_Complete(1) [of d st m sid]
    by (auto simp only: step_Complete(3) intro: step_Complete(2))
qed

lemma manager_ok_run: "manager_ok m \<Longrightarrow> manager_ok (manager_run d st m es)"
  unfolding manager_run_def
  by (induction es arbitrary: m) (simp_all add: manager_ok_step)

lemma retired_step:
  assumes "retired m sid"
  shows "retired (manager_step d st m e) sid"
proof (cases e)
  case (Start t l r)
  from assms have "sid < next_session m" "sid \<notin> session_id ` set (in_flight m)"
    by (simp_all add: retired_def)
  then show ?thesis
    unfolding Start retired_def step_Start by auto
next
  case (Progress x pct)
  with assms show ?thesis
    unfolding retired_def by (simp add: step_Progress del: manager_step.simps)
next
  case (Complete x)
  from assms have "sid < next_session m" "sid \<notin> session_id ` set (in_flight m)"
    by (simp_all add: retired_def)
  then show ?thesis
    unfolding Complete retired_def
    using step_Complete(1) [of d st m x] by (auto simp only: step_Complete(3))
qed

lemma retired_run: "retired m sid \<Longrightarrow> retired (manager_run d st m es) sid"
  unfolding manager_run_def
  by (induction es arbitrary: m) (simp_all add: retired_step)

lemma start_retires:
  assumes "manager_ok m" "s1 \<in> set (in_flight m)" "session_track s1 = t"
  shows "retired (manager_step d st m (Start t l r)) (session_id s1)"
    and "session_id s1 \<in> set (cancelled (manager_step d st m (Start t l r)))"
proof -
  have inj: "inj_on session_id (set (in_flight m))"
    and lt: "session_id s1 < next_session m"
    using assms(1,2) by (simp_all add: manager_ok_def distinct_map)
  have "session_id x \<noteq> session_id s1"
    if "x \<in> set (in_flight m)" "session_track x \<noteq> t" for x
    using inj assms(2,3) that by (metis inj_onD)
  then have "session_id s1 \<notin> session_id ` set (filter (\<lambda>s. session_track s \<noteq> t) (in_flight m))"
    by force
  with lt show "retired (manager_step d st m (Start t l r)) (session_id s1)"
    unfolding retired_def step_Start by simp
  show "session_id s1 \<in> set (cancelled (manager_step d st m (Start t l r)))"
    unfolding step_Start using assms(2,3) by simp
qed

text \<open>
  C4. In the download manager of the specification, after any sequence of events at most
  one session is in flight for every track; starting a session for a track that has a
  session \<open>s1\<close> in flight cancels \<open>s1\<close>, and whatever happens afterwards \<open>s1\<close> is
  never in flight again and a progress update from \<open>s1\<close> changes nothing, so it does not
  alter the download status of the track.
\<close>

theorem supersession:
  "distinct (map session_track (in_flight (manager_run d st initial_manager es)))
   \<and> (s1 \<in> set (in_flight (manager_run d st initial_manager es)) \<longrightarrow>
        (let m2 = manager_step d st (manager_run d st initial_manager es)
                    (Start (session_track s1) l r);
             m' = manager_run d st m2 es'
         in session_id s1 \<in> set (cancelled m2)
            \<and> distinct (map session_track (in_flight m'))
            \<and> session_id s1 \<notin> session_id ` set (in_flight m')
            \<and> manager_step d st m' (Progress (session_id s1) pct) = m'))"
proof (intro conjI impI)
  let ?m = "manager_run d st initial_manager es"
  let ?m2 = "manager_step d st ?m (Start (session_track s1) l r)"
  let ?m' = "manager_run d st ?m2 es'"
  have ok: "manager_ok ?m"
    by (rule manager_ok_run) (rule manager_ok_initial)
  then show "distinct (map session_track (in_flight ?m))"
    by (simp add: manager_ok_def)
  assume s1: "s1 \<in> set (in_flight ?m)"
  have "manager_ok ?m'"
    by (intro manager_ok_run manager_ok_step ok)
  then have 1: "distinct (map session_track (in_flight ?m'))"
    by (simp add: manager_ok_def)
  have 2: "session_id s1 \<in> set (cancelled ?m2)"
    using ok s1 by (rule start_retires) simp
  have "retired ?m2 (session_id s1)"
    using ok s1 by (rule start_retires) simp
  then have "retired ?m' (session_id s1)"
    by (rule retired_run)
  then have 3: "session_id s1 \<notin> session_id ` set (in_flight ?m')"
    by (simp add: retired_def)
  then have 4: "manager_step d st ?m' (Progress (session_id s1) pct) = ?m'"
    by (simp add: find_session_None)
  from 1 2 3 4 show "let m2 = ?m2; m' = manager_run d st m2 es'
         in session_id s1 \<in> set (cancelled m2)
            \<and> distinct (map session_track (in_flight m'))
            \<and> session_id s1 \<notin> session_id ` set (in_flight m')
            \<and> manager_step d st m' (Progress (session_id s1) pct) = m'"
    by (simp only: Let_def) blast
qed

theorem supersession_witness:
  "first_session \<in> set (in_flight (manager_run (js ''file:///docs/'') example_state
       initial_manager [Start (js ''abc'') (js ''abc_3.mp3'') (js ''/abc.mp3'')]))
   \<and> status_of restarted (js ''abc'') = Some 40
   \<and> map session_id (in_flight restarted) = [1]
   \<and> manager_step (js ''file:///docs/'') example_state restarted
         (Progress (session_id first_session) 90) = restarted"
proof -
  have m: "manager_run (js ''file:///docs/'') example_state initial_manager
       [Start (js ''abc'') (js ''abc_3.mp3'') (js ''/abc.mp3'')]
     = \<lparr>next_session = 1, in_flight = [first_session], cancelled = [],
        status_of = (\<lambda>t. None)\<rparr>"
    by (simp add: manager_run_def initial_manager_def first_session_def Let_def)
  have 1: "first_session \<in> set (in_flight (manager_run (js ''file:///docs/'') example_state
       initial_manager [Start (js ''abc'') (js ''abc_3.mp3'') (js ''/abc.mp3'')]))"
    unfolding m by simp
  have t: "session_track first_session = js ''abc''" "session_id first_session = 0"
    by (simp_all add: first_session_def)
  have r: "in_flight restarted =
      [\<lparr>session_id = 1, session_track = js ''abc'',
        session_downloader = createDownloader (js ''file:///docs/'') (js ''abc_3.mp3'')
          (js ''/abc.mp3'') example_state 1\<rparr>]"
    "status_of restarted (js ''abc'') = Some 40"
    unfolding restarted_def m
    by (simp_all add: manager_run_def find_session_def Let_def t)
  have 4: "manager_step (js ''file:///docs/'') example_state restarted
         (Progress (session_id first_session) 90) = restarted"
    using supersession [of "js ''file:///docs/''" example_state
        "[Start (js ''abc'') (js ''abc_3.mp3'') (js ''/abc.mp3'')]" first_session
        "js ''abc_3.mp3''" "js ''/abc.mp3''" "[Progress 1 40]" 90] 1
    unfolding restarted_def Let_def by blast
  from 1 r 4 show ?thesis by simp
qed

end
